theory Spec2Isabelle
  imports Complex_Main "HOL-Library.AList" "HOL-Library.Log_Nat"
begin

section \<open>The request gateway (class Queries)\<close>

text \<open>
  The HTTP stack is outside the program. One request either raises (no response was
  obtained) or yields a status code and a body; decoding the body as JSON either raises or
  gives a value, where \<open>None\<close> is Python's \<open>None\<close> (the JSON document \<open>null\<close>).
  The payload type \<open>'a\<close> is the decoded JSON; the empty dictionary \<open>dict()\<close> of that type
  is passed to the functions as \<open>empty_dict\<close>.
\<close>

datatype error = RequestFailed | ZeroDivisionError | OverflowError | AssertionError

datatype 'a body = BadJson | Json "'a option"

datatype 'a http = ConnFail | Http nat "'a body"

text \<open>
  \<open>Queries.query\<close>. The \<open>try\<close> block covers both the POST and the decoding of its body;
  the \<open>except\<close> block repeats the request on the blocking transport with no handler of its
  own, so whatever that raises leaves the function. The second component counts the
  requests that were issued.
\<close>

definition query :: "'a \<Rightarrow> 'a http \<Rightarrow> 'a http \<Rightarrow> (error + 'a) \<times> nat" where
  "query empty_dict r_async r_requests =
     (case r_async of
        Http st (Json (Some result)) \<Rightarrow> (Inr result, 1)
      | Http st (Json None) \<Rightarrow> (Inr empty_dict, 1)
      | _ \<Rightarrow>
         (case r_requests of
            Http st (Json (Some result)) \<Rightarrow> (Inr result, 2)
          | Http st (Json None) \<Rightarrow> (Inr empty_dict, 2)
          | _ \<Rightarrow> (Inl RequestFailed, 2)))"






section \<open>The overview response\<close>

text \<open>
  The decoded answer to \<open>Queries.repos_overview\<close>, one datatype per JSON object. The
  answer is taken to have the shape the query asks for: a key is absent (\<open>None\<close>) or
  carries a value of its type. Where the schema allows \<open>null\<close> and the code reads the
  value, \<open>null\<close> is a value of its own: the viewer's \<open>name\<close> and a language's \<open>color\<close>
  (for both, \<open>.get\<close> gives \<open>None\<close> for an absent key and for \<open>null\<close> alike), an element of
  \<open>nodes\<close>, and \<open>endCursor\<close>, where the outer \<open>None\<close> is the absent key and
  \<open>Some None\<close> is \<open>null\<close>.
\<close>

datatype lang_node = LangNode (ln_name: "string option") (ln_color: "string option")

datatype lang_edge = LangEdge (le_size: "int option") (le_node: "lang_node option")

datatype lang_conn = LangConn (edges: "lang_edge list option")

datatype repo = Repo (nameWithOwner: "string option") (languages_of: "lang_conn option")

datatype page_info = PageInfo (hasNextPage: "bool option") (endCursor: "string option option")

datatype repo_conn = RepoConn (pageInfo: "page_info option") (nodes: "repo option list option")

datatype count_conn = CountConn (totalCount: "int option")

datatype viewer = Viewer
  (v_name: "string option")
  (v_login: "string option")
  (pullRequests: "count_conn option")
  (openIssues: "count_conn option")
  (closedIssues: "count_conn option")
  (repositories: "repo_conn option")
  (repositoriesContributedTo: "repo_conn option")

datatype data = Data (d_viewer: "viewer option")

datatype raw_results = Raw (r_data: "data option")

text \<open>\<open>d.get(key, default)\<close> on a key that is absent or present.\<close>

definition dflt :: "'a \<Rightarrow> 'a option \<Rightarrow> 'a" where
  "dflt d x = (case x of None \<Rightarrow> d | Some v \<Rightarrow> v)"

text \<open>The empty dictionary \<open>{}\<close> at each type.\<close>

definition empty_raw :: raw_results where "empty_raw = Raw None"
definition empty_data :: data where "empty_data = Data None"
definition empty_viewer :: viewer where
  "empty_viewer = Viewer None None None None None None None"
definition empty_repo_conn :: repo_conn where "empty_repo_conn = RepoConn None None"
definition empty_page_info :: page_info where "empty_page_info = PageInfo None None"
definition empty_count_conn :: count_conn where "empty_count_conn = CountConn None"
definition empty_lang_conn :: lang_conn where "empty_lang_conn = LangConn None"
definition empty_lang_node :: lang_node where "empty_lang_node = LangNode None None"

section \<open>The aggregator (class Stats)\<close>

text \<open>
  \<open>str.lower\<close>, on the ASCII letters; a \<open>char\<close> is a byte, and the bytes of a character
  outside ASCII are left as they are.
\<close>

definition lower_char :: "char \<Rightarrow> char" where
  "lower_char c =
     (case map_of (zip ''ABCDEFGHIJKLMNOPQRSTUVWXYZ'' ''abcdefghijklmnopqrstuvwxyz'') c of
        None \<Rightarrow> c
      | Some l \<Rightarrow> l)"

definition lower :: "string \<Rightarrow> string" where
  "lower s = map lower_char s"

subsection \<open>Floats\<close>

text \<open>
  A Python float is an IEEE 754 double: 53 bits of precision, exponents from \<open>-1022\<close> to
  \<open>1023\<close>, subnormal numbers below, results rounded to the nearest double and, of two
  nearest, to the one whose last bit is \<open>0\<close>. A finite double is modelled by the rational
  number it denotes; the sign of a zero is not kept.

  \<open>pow2 e\<close> is \<open>2\<close> to the power \<open>e\<close>. \<open>round_even\<close> rounds to the nearest integer, ties
  to the even one. \<open>exponent x\<close>, for \<open>x\<close> other than \<open>0\<close>, is the \<open>e\<close> with
  \<open>2^e \<le> |x| < 2^(e+1)\<close>. \<open>nearest_double x\<close> is \<open>x\<close> rounded to 53 bits, or to a
  multiple of \<open>2^-1074\<close> in the subnormal range, with no bound on the exponent above; a
  result of magnitude \<open>2^1024\<close> or more is an overflow.
\<close>

definition pow2 :: "int \<Rightarrow> rat" where
  "pow2 e = 2 powi e"

definition round_even :: "rat \<Rightarrow> int" where
  "round_even x =
     (let f = \<lfloor>x\<rfloor>; r = x - of_int f in
      if r < 1 / 2 then f else if 1 / 2 < r then f + 1 else if even f then f else f + 1)"

definition exponent :: "rat \<Rightarrow> int" where
  "exponent x =
     (let d = bitlen (fst (quotient_of \<bar>x\<bar>)) - bitlen (snd (quotient_of \<bar>x\<bar>)) in
      if pow2 d \<le> \<bar>x\<bar> then d else d - 1)"

definition nearest_double :: "rat \<Rightarrow> rat" where
  "nearest_double x =
     (if x = 0 then 0
      else (let q = max (exponent x - 52) (- 1074) in of_int (round_even (x / pow2 q)) * pow2 q))"

definition overflow :: "rat \<Rightarrow> bool" where
  "overflow y = (pow2 1024 \<le> \<bar>y\<bar>)"

text \<open>
  \<open>a / b\<close> on two \<open>int\<close>s: the quotient, correctly rounded; division by zero and a quotient
  too large for a float raise.
\<close>

definition int_truediv :: "int \<Rightarrow> int \<Rightarrow> error + rat" where
  "int_truediv a b =
     (if b = 0 then Inl ZeroDivisionError
      else (let y = nearest_double (of_int a / of_int b) in
            if overflow y then Inl OverflowError else Inr y))"

text \<open>
  The product of two finite floats, which does not raise: a product too large is an
  infinity.
\<close>

datatype py_float = Finite rat | PosInf | NegInf

definition float_mul :: "rat \<Rightarrow> rat \<Rightarrow> py_float" where
  "float_mul x y =
     (let p = nearest_double (x * y) in
      if overflow p then (if 0 < x * y then PosInf else NegInf) else Finite p)"

subsection \<open>The object\<close>

text \<open>
  One entry of the language table: the dictionary with the keys \<open>size\<close>, \<open>occurrences\<close>,
  \<open>color\<close> and, once the final pass has reached it, \<open>prop\<close>. The table is a Python
  \<open>dict\<close>: an association list in insertion order with distinct keys, \<open>map_of\<close> to read
  and \<open>AList.update\<close> to write.
\<close>

record lang_stat =
  l_size :: int
  l_occurrences :: int
  l_color :: "string option"
  l_prop :: "py_float option"

type_synonym table = "(string \<times> lang_stat) list"

text \<open>
  A repository identifier is what \<open>repo.get("nameWithOwner")\<close> gives: \<open>None\<close> when the key
  is absent.
\<close>

type_synonym ident = "string option"

type_synonym cursor = "string option"

text \<open>The constructor's arguments, which no method writes.\<close>

record settings =
  exclude_repos :: "ident set"
  exclude_langs :: "string set"
  ignore_forked_repos :: bool

text \<open>The slots \<open>_name\<close>, \<open>_total_contributions\<close>, \<open>_languages\<close>, \<open>_repos\<close>, \<open>_issues\<close>, \<open>_prs\<close>.\<close>

record stats =
  s_name :: "string option"
  s_total_contributions :: "int option"
  s_languages :: "table option"
  s_repos :: "ident set option"
  s_issues :: "int option"
  s_prs :: "int option"

text \<open>\<open>Stats.__init__\<close>: the two counters start at \<open>0\<close>, the other slots at \<open>None\<close>.\<close>

definition init :: stats where
  "init = \<lparr>s_name = None, s_total_contributions = None, s_languages = None,
           s_repos = None, s_issues = Some 0, s_prs = Some 0\<rparr>"

definition exclude_langs_lower :: "settings \<Rightarrow> string set" where
  "exclude_langs_lower P = lower ` exclude_langs P"

text \<open>The body of \<open>for lang in repo.get("languages", {}).get("edges", [])\<close>.\<close>

definition merge_edge :: "settings \<Rightarrow> lang_edge \<Rightarrow> table \<Rightarrow> table" where
  "merge_edge P lang languages =
     (let name = dflt ''Other'' (ln_name (dflt empty_lang_node (le_node lang)))
      in if lower name \<in> exclude_langs_lower P then languages
         else (case map_of languages name of
                 Some v \<Rightarrow>
                   AList.update name
                     (v\<lparr>l_size := l_size v + dflt 0 (le_size lang),
                        l_occurrences := l_occurrences v + 1\<rparr>) languages
               | None \<Rightarrow>
                   AList.update name
                     \<lparr>l_size = dflt 0 (le_size lang), l_occurrences = 1,
                      l_color = ln_color (dflt empty_lang_node (le_node lang)),
                      l_prop = None\<rparr> languages))"

text \<open>The body of \<open>for repo in repos\<close>, on the repo set and the language table.\<close>

definition add_repo :: "settings \<Rightarrow> repo option \<Rightarrow> ident set \<times> table \<Rightarrow> ident set \<times> table" where
  "add_repo P repo acc =
     (case repo of
        None \<Rightarrow> acc
      | Some r \<Rightarrow>
          (let name = nameWithOwner r in
           if name \<in> fst acc \<or> name \<in> exclude_repos P then acc
           else (insert name (fst acc),
                 fold (merge_edge P)
                   (dflt [] (edges (dflt empty_lang_conn (languages_of r)))) (snd acc))))"

definition get_viewer :: "raw_results \<Rightarrow> viewer" where
  "get_viewer raw_results = dflt empty_viewer (d_viewer (dflt empty_data (r_data raw_results)))"

definition contrib_repos :: "viewer \<Rightarrow> repo_conn" where
  "contrib_repos v = dflt empty_repo_conn (repositoriesContributedTo v)"

definition owned_repos :: "viewer \<Rightarrow> repo_conn" where
  "owned_repos v = dflt empty_repo_conn (repositories v)"

definition total_count :: "count_conn option \<Rightarrow> int" where
  "total_count c = dflt 0 (totalCount (dflt empty_count_conn c))"

definition page_repos :: "settings \<Rightarrow> viewer \<Rightarrow> repo option list" where
  "page_repos P v =
     dflt [] (nodes (owned_repos v)) @
     (if \<not> ignore_forked_repos P then dflt [] (nodes (contrib_repos v)) else [])"

text \<open>
  One round of \<open>while True\<close> up to the test of \<open>hasNextPage\<close>. The slots \<open>_repos\<close> and
  \<open>_languages\<close> were filled at the top of \<open>get_stats\<close> and are never emptied, so the
  defaults of \<open>dflt\<close> on them are not reached from \<open>get_stats\<close>.
\<close>

definition aggregate_page :: "settings \<Rightarrow> viewer \<Rightarrow> stats \<Rightarrow> stats" where
  "aggregate_page P v st =
     (let name = (case v_name v of None \<Rightarrow> dflt ''No Name'' (v_login v) | Some n \<Rightarrow> n);
          issuesO = total_count (openIssues v);
          issuesC = total_count (closedIssues v);
          acc = fold (add_repo P) (page_repos P v)
                  (dflt {} (s_repos st), dflt [] (s_languages st))
      in st\<lparr>s_name := Some name,
            s_issues := Some (issuesC + issuesO),
            s_prs := Some (total_count (pullRequests v)),
            s_repos := Some (fst acc),
            s_languages := Some (snd acc)\<rparr>)"

definition has_next :: "viewer \<Rightarrow> bool" where
  "has_next v =
     (dflt False (hasNextPage (dflt empty_page_info (pageInfo (owned_repos v)))) \<or>
      dflt False (hasNextPage (dflt empty_page_info (pageInfo (contrib_repos v)))))"

definition end_cursor :: "repo_conn \<Rightarrow> cursor \<Rightarrow> cursor" where
  "end_cursor c nxt = dflt nxt (endCursor (dflt empty_page_info (pageInfo c)))"

text \<open>
  The server is a tape: call number \<open>k\<close> of \<open>Queries.query\<close> meets the two transport
  outcomes \<open>srv k\<close>, whatever the query asks. The loop records the cursors it sends, in
  order, as the third component of its result. \<open>None\<close> is a loop that never ends.
\<close>

type_synonym server = "nat \<Rightarrow> raw_results http \<times> raw_results http"

type_synonym outcome = "error option \<times> stats \<times> (cursor \<times> cursor) list"

partial_function (option) overview_loop ::
  "settings \<Rightarrow> server \<Rightarrow> nat \<Rightarrow> stats \<Rightarrow> cursor \<Rightarrow> cursor \<Rightarrow> (cursor \<times> cursor) list
     \<Rightarrow> outcome option" where
  "overview_loop P srv k st next_owned next_contrib sent =
     (case fst (query empty_raw (fst (srv k)) (snd (srv k))) of
        Inl e \<Rightarrow> Some (Some e, st, sent @ [(next_owned, next_contrib)])
      | Inr raw_results \<Rightarrow>
          (let v = get_viewer raw_results; st' = aggregate_page P v st in
           if has_next v then
             overview_loop P srv (Suc k) st'
               (end_cursor (owned_repos v) next_owned)
               (end_cursor (contrib_repos v) next_contrib)
               (sent @ [(next_owned, next_contrib)])
           else Some (None, st', sent @ [(next_owned, next_contrib)])))"

declare overview_loop.simps [code]

text \<open>
  The final pass: \<open>v["prop"] = 100 * (v.get("size", 0) / langs_total)\<close> for each entry, in
  the order of the table. The division raises when \<open>langs_total\<close> is \<open>0\<close> or the quotient
  too large; the entries before the one that raises have their \<open>prop\<close> by then, and the
  integer \<open>100\<close> is the float \<open>100.0\<close> in the product.
\<close>

definition langs_total :: "table \<Rightarrow> int" where
  "langs_total languages = sum_list (map (\<lambda>kv. l_size (snd kv)) languages)"

fun set_props :: "int \<Rightarrow> table \<Rightarrow> error option \<times> table" where
  "set_props n_total [] = (None, [])"
| "set_props n_total ((k, v) # kvs) =
     (case int_truediv (l_size v) n_total of
        Inl e \<Rightarrow> (Some e, (k, v) # kvs)
      | Inr q \<Rightarrow>
          (case set_props n_total kvs of
             (e, kvs') \<Rightarrow> (e, (k, v\<lparr>l_prop := Some (float_mul 100 q)\<rparr>) # kvs')))"

definition get_stats :: "settings \<Rightarrow> server \<Rightarrow> stats \<Rightarrow> outcome option" where
  "get_stats P srv st =
     (case overview_loop P srv 0 (st\<lparr>s_languages := Some [], s_repos := Some {}\<rparr>)
             None None [] of
        None \<Rightarrow> None
      | Some (Some e, st', sent) \<Rightarrow> Some (Some e, st', sent)
      | Some (None, st', sent) \<Rightarrow>
          (let languages = dflt [] (s_languages st') in
           case set_props (langs_total languages) languages of
             (e, languages') \<Rightarrow> Some (e, st'\<lparr>s_languages := Some languages'\<rparr>, sent)))"

section \<open>The lazy accessors\<close>

text \<open>
  Each property returns its value, or the exception that left it, and the object as it
  then is. \<open>None\<close>: the call of \<open>get_stats\<close> never returned.
\<close>

definition name :: "settings \<Rightarrow> server \<Rightarrow> stats \<Rightarrow> ((error + string) \<times> stats) option" where
  "name P srv st =
     (case s_name st of
        Some n \<Rightarrow> Some (Inr n, st)
      | None \<Rightarrow>
          (case get_stats P srv st of
             None \<Rightarrow> None
           | Some (Some e, st', sent) \<Rightarrow> Some (Inl e, st')
           | Some (None, st', sent) \<Rightarrow>
               (case s_name st' of
                  None \<Rightarrow> Some (Inl AssertionError, st')
                | Some n \<Rightarrow> Some (Inr n, st'))))"

definition languages :: "settings \<Rightarrow> server \<Rightarrow> stats \<Rightarrow> ((error + table) \<times> stats) option" where
  "languages P srv st =
     (case s_languages st of
        Some l \<Rightarrow> Some (Inr l, st)
      | None \<Rightarrow>
          (case get_stats P srv st of
             None \<Rightarrow> None
           | Some (Some e, st', sent) \<Rightarrow> Some (Inl e, st')
           | Some (None, st', sent) \<Rightarrow>
               (case s_languages st' of
                  None \<Rightarrow> Some (Inl AssertionError, st')
                | Some l \<Rightarrow> Some (Inr l, st'))))"

definition proportions :: "table \<Rightarrow> (string \<times> py_float) list" where
  "proportions l = map (\<lambda>kv. (fst kv, dflt (Finite 0) (l_prop (snd kv)))) l"

definition languages_proportional ::
  "settings \<Rightarrow> server \<Rightarrow> stats \<Rightarrow> ((error + (string \<times> py_float) list) \<times> stats) option" where
  "languages_proportional P srv st =
     (case s_languages st of
        Some l \<Rightarrow> Some (Inr (proportions l), st)
      | None \<Rightarrow>
          (case get_stats P srv st of
             None \<Rightarrow> None
           | Some (Some e, st', sent) \<Rightarrow> Some (Inl e, st')
           | Some (None, st', sent) \<Rightarrow>
               (case s_languages st' of
                  None \<Rightarrow> Some (Inl AssertionError, st')
                | Some l \<Rightarrow> Some (Inr (proportions l), st'))))"

definition repos :: "settings \<Rightarrow> server \<Rightarrow> stats \<Rightarrow> ((error + ident set) \<times> stats) option" where
  "repos P srv st =
     (case s_repos st of
        Some r \<Rightarrow> Some (Inr r, st)
      | None \<Rightarrow>
          (case get_stats P srv st of
             None \<Rightarrow> None
           | Some (Some e, st', sent) \<Rightarrow> Some (Inl e, st')
           | Some (None, st', sent) \<Rightarrow>
               (case s_repos st' of
                  None \<Rightarrow> Some (Inl AssertionError, st')
                | Some r \<Rightarrow> Some (Inr r, st'))))"

text \<open>
  \<open>issues\<close> and \<open>prs\<close> return the slot as it is after the test \<open>is None\<close>, with no
  assertion.
\<close>

definition issues :: "settings \<Rightarrow> server \<Rightarrow> stats \<Rightarrow> ((error + int option) \<times> stats) option" where
  "issues P srv st =
     (case s_issues st of
        Some n \<Rightarrow> Some (Inr (Some n), st)
      | None \<Rightarrow>
          (case get_stats P srv st of
             None \<Rightarrow> None
           | Some (Some e, st', sent) \<Rightarrow> Some (Inl e, st')
           | Some (None, st', sent) \<Rightarrow> Some (Inr (s_issues st'), st')))"

definition prs :: "settings \<Rightarrow> server \<Rightarrow> stats \<Rightarrow> ((error + int option) \<times> stats) option" where
  "prs P srv st =
     (case s_prs st of
        Some n \<Rightarrow> Some (Inr (Some n), st)
      | None \<Rightarrow>
          (case get_stats P srv st of
             None \<Rightarrow> None
           | Some (Some e, st', sent) \<Rightarrow> Some (Inl e, st')
           | Some (None, st', sent) \<Rightarrow> Some (Inr (s_prs st'), st')))"

section \<open>Runs of the pagination loop\<close>

text \<open>
  What call \<open>k\<close> of \<open>Queries.query\<close> gives the loop, and the page in it. A call is
  answered when \<open>query\<close> returns rather than raises.
\<close>

definition reply :: "server \<Rightarrow> nat \<Rightarrow> error + raw_results" where
  "reply srv k = fst (query empty_raw (fst (srv k)) (snd (srv k)))"

definition answered :: "server \<Rightarrow> nat \<Rightarrow> bool" where
  "answered srv k = (case reply srv k of Inl e \<Rightarrow> False | Inr raw_results \<Rightarrow> True)"

definition page :: "server \<Rightarrow> nat \<Rightarrow> viewer" where
  "page srv k = (case reply srv k of Inl e \<Rightarrow> empty_viewer | Inr raw_results \<Rightarrow> get_viewer raw_results)"

text \<open>The object and the two cursors after the first \<open>n\<close> pages have been aggregated.\<close>

primrec state_at :: "settings \<Rightarrow> server \<Rightarrow> stats \<Rightarrow> nat \<Rightarrow> stats" where
  "state_at P srv st 0 = st"
| "state_at P srv st (Suc n) = aggregate_page P (page srv n) (state_at P srv st n)"

primrec cursors_at :: "server \<Rightarrow> nat \<Rightarrow> cursor \<times> cursor" where
  "cursors_at srv 0 = (None, None)"
| "cursors_at srv (Suc n) =
     (end_cursor (owned_repos (page srv n)) (fst (cursors_at srv n)),
      end_cursor (contrib_repos (page srv n)) (snd (cursors_at srv n)))"

text \<open>
  A run stops at page \<open>n\<close>: every call up to \<open>n\<close> is answered, the pages before \<open>n\<close>
  report a next page and page \<open>n\<close> does not.
\<close>

definition stops_at :: "server \<Rightarrow> nat \<Rightarrow> bool" where
  "stops_at srv n =
     ((\<forall>j<n. answered srv j \<and> has_next (page srv j)) \<and>
      answered srv n \<and> \<not> has_next (page srv n))"

text \<open>The candidate repositories of the first \<open>n\<close> pages, in the order the loop meets them.\<close>

definition candidates :: "settings \<Rightarrow> server \<Rightarrow> nat \<Rightarrow> repo option list" where
  "candidates P srv n = concat (map (\<lambda>j. page_repos P (page srv j)) [0..<n])"

fun idents :: "repo option list \<Rightarrow> ident list" where
  "idents [] = []"
| "idents (None # rs) = idents rs"
| "idents (Some r # rs) = nameWithOwner r # idents rs"

text \<open>The language loop of one repository, and the totals of a table.\<close>

definition add_langs :: "settings \<Rightarrow> repo \<Rightarrow> table \<Rightarrow> table" where
  "add_langs P r l =
     fold (merge_edge P) (dflt [] (edges (dflt empty_lang_conn (languages_of r)))) l"

definition totals :: "table \<Rightarrow> (string \<times> int \<times> int) list" where
  "totals l = map (\<lambda>kv. (fst kv, l_size (snd kv), l_occurrences (snd kv))) l"

text \<open>The initial object of \<open>get_stats\<close>, after its first two assignments.\<close>

definition start :: "stats \<Rightarrow> stats" where
  "start st = st\<lparr>s_languages := Some [], s_repos := Some {}\<rparr>"

text \<open>The repo set and the language table of the object, as the loop reads them.\<close>

definition acc_of :: "stats \<Rightarrow> ident set \<times> table" where
  "acc_of st = (dflt {} (s_repos st), dflt [] (s_languages st))"

text \<open>
  The repositories whose languages the loop merges: of each identifier that is neither in
  \<open>seen\<close> nor excluded, the first repository that carries it.
\<close>

fun first_seen :: "settings \<Rightarrow> ident set \<Rightarrow> repo option list \<Rightarrow> repo list" where
  "first_seen P seen [] = []"
| "first_seen P seen (None # rs) = first_seen P seen rs"
| "first_seen P seen (Some r # rs) =
     (if nameWithOwner r \<in> seen \<or> nameWithOwner r \<in> exclude_repos P then first_seen P seen rs
      else r # first_seen P (insert (nameWithOwner r) seen) rs)"

section \<open>Notions the theorems are stated with\<close>

text \<open>
  A request raises inside \<open>query\<close> when no response arrives or its body does not decode.
  The payload of a response that does not raise is its decoded body, and the empty
  dictionary stands in for \<open>None\<close>.
\<close>

definition raises :: "'a http \<Rightarrow> bool" where
  "raises h = (case h of ConnFail \<Rightarrow> True | Http st BadJson \<Rightarrow> True | Http st (Json r) \<Rightarrow> False)"

definition payload :: "'a \<Rightarrow> 'a http \<Rightarrow> 'a" where
  "payload empty_dict h = (case h of Http st (Json (Some r)) \<Rightarrow> r | _ \<Rightarrow> empty_dict)"











text \<open>
  An example run of two pages. One repository is excluded, one language is excluded,
  \<open>x/a\<close> is owned and contributed to and comes back on the second page, one element of
  \<open>nodes\<close> is \<open>null\<close>, and one language edge has neither a name nor a size.
\<close>

definition example_settings :: settings where
  "example_settings =
     \<lparr>exclude_repos = {Some ''x/secret''}, exclude_langs = {''python''},
      ignore_forked_repos = False\<rparr>"

definition named_edge :: "string \<Rightarrow> int \<Rightarrow> lang_edge" where
  "named_edge n s = LangEdge (Some s) (Some (LangNode (Some n) None))"

definition repo_a :: repo where
  "repo_a = Repo (Some ''x/a'') (Some (LangConn (Some [named_edge ''C'' 3, named_edge ''Python'' 9])))"

definition repo_secret :: repo where
  "repo_secret = Repo (Some ''x/secret'') (Some (LangConn (Some [named_edge ''Go'' 7])))"

definition repo_Secret :: repo where
  "repo_Secret =
     Repo (Some ''X/Secret'') (Some (LangConn (Some [LangEdge None None, named_edge ''C'' 1])))"

definition first_page :: viewer where
  "first_page =
     Viewer (Some ''Ada'') (Some ''ada'')
       (Some (CountConn (Some 1))) (Some (CountConn (Some 1))) (Some (CountConn (Some 1)))
       (Some (RepoConn (Some (PageInfo (Some True) (Some (Some ''c1''))))
          (Some [Some repo_a, None, Some repo_secret])))
       (Some (RepoConn (Some (PageInfo (Some False) None)) (Some [Some repo_a])))"

definition last_page :: viewer where
  "last_page =
     Viewer (Some ''Ada'') (Some ''ada'')
       (Some (CountConn (Some 5))) (Some (CountConn (Some 5))) (Some (CountConn (Some 5)))
       (Some (RepoConn (Some (PageInfo (Some False) None))
          (Some [Some repo_a, Some repo_Secret])))
       None"

definition ok_response :: "viewer \<Rightarrow> raw_results http \<times> raw_results http" where
  "ok_response v = (Http 200 (Json (Some (Raw (Some (Data (Some v)))))), ConnFail)"

definition two_pages :: server where
  "two_pages k = (if k = 0 then ok_response first_page else ok_response last_page)"

definition one_page :: server where
  "one_page k = ok_response last_page"

text \<open>
  The name, size and colour the loop reads from a language edge, the entry it writes for
  the edge, and the readings of a table that the theorems use.
\<close>

definition edge_name :: "lang_edge \<Rightarrow> string" where
  "edge_name lang = dflt ''Other'' (ln_name (dflt empty_lang_node (le_node lang)))"

definition edge_size :: "lang_edge \<Rightarrow> int" where
  "edge_size lang = dflt 0 (le_size lang)"

definition edge_color :: "lang_edge \<Rightarrow> string option" where
  "edge_color lang = ln_color (dflt empty_lang_node (le_node lang))"

definition merged_entry :: "lang_edge \<Rightarrow> lang_stat option \<Rightarrow> lang_stat" where
  "merged_entry lang old =
     (case old of
        None \<Rightarrow> \<lparr>l_size = edge_size lang, l_occurrences = 1, l_color = edge_color lang,
                  l_prop = None\<rparr>
      | Some v \<Rightarrow> v\<lparr>l_size := l_size v + edge_size lang, l_occurrences := l_occurrences v + 1\<rparr>)"

definition occurrences_of :: "table \<Rightarrow> string \<Rightarrow> int" where
  "occurrences_of l k = (case map_of l k of None \<Rightarrow> 0 | Some v \<Rightarrow> l_occurrences v)"

definition size_of :: "table \<Rightarrow> string \<Rightarrow> int" where
  "size_of l k = (case map_of l k of None \<Rightarrow> 0 | Some v \<Rightarrow> l_size v)"

definition keys :: "table \<Rightarrow> string set" where
  "keys l = fst ` set l"

definition clean :: "settings \<Rightarrow> table \<Rightarrow> bool" where
  "clean P l = (\<forall>k\<in>keys l. lower k \<notin> exclude_langs_lower P)"


text \<open>The object the two-page example run ends with.\<close>

definition example_final :: stats where
  "example_final =
     \<lparr>s_name = Some ''Ada'', s_total_contributions = None,
      s_languages = Some
        [(''C'', \<lparr>l_size = 4, l_occurrences = 2, l_color = None, l_prop = Some (Finite 100)\<rparr>),
         (''Other'', \<lparr>l_size = 0, l_occurrences = 1, l_color = None, l_prop = Some (Finite 0)\<rparr>)],
      s_repos = Some {Some ''X/Secret'', Some ''x/a''},
      s_issues = Some 10, s_prs = Some 5\<rparr>"








text \<open>
  The language edges of a repository, as the loop reads them, and the edges of all the
  repositories whose languages a run that stops at page \<open>n\<close> merges.
\<close>

definition repo_edges :: "repo \<Rightarrow> lang_edge list" where
  "repo_edges r = dflt [] (edges (dflt empty_lang_conn (languages_of r)))"

definition merged_edges :: "settings \<Rightarrow> server \<Rightarrow> nat \<Rightarrow> lang_edge list" where
  "merged_edges P srv n =
     concat (map repo_edges (first_seen P {} (candidates P srv (Suc n))))"

text \<open>
  An example run of three pages, as the service answers an account whose own
  repositories fit on one page while the repositories it contributed to fill three. The
  first call gets the only page of owned repositories, with its end cursor \<open>c1\<close>. The
  second call asks for the owned repositories after \<open>c1\<close>: there are none, and the
  service reports the end cursor of an empty page as \<open>null\<close>. The third call is the last
  one for the contributed-to repositories.
\<close>

definition owned_page :: repo_conn where
  "owned_page = RepoConn (Some (PageInfo (Some False) (Some (Some ''c1'')))) (Some [Some repo_a])"

definition owned_drained :: repo_conn where
  "owned_drained = RepoConn (Some (PageInfo (Some False) (Some None))) (Some [])"

definition contrib_page :: "bool \<Rightarrow> string \<Rightarrow> repo_conn" where
  "contrib_page mo c = RepoConn (Some (PageInfo (Some mo) (Some (Some c)))) (Some [])"

definition call_of :: "repo_conn \<Rightarrow> repo_conn \<Rightarrow> raw_results http \<times> raw_results http" where
  "call_of own con =
     ok_response (Viewer (Some ''Ada'') (Some ''ada'') None None None (Some own) (Some con))"

definition three_calls :: server where
  "three_calls k =
     (if k = 0 then call_of owned_page (contrib_page True ''d1'')
      else if k = 1 then call_of owned_drained (contrib_page True ''d2'')
      else call_of owned_page (contrib_page False ''d3''))"

definition three_calls_final :: stats where
  "three_calls_final =
     \<lparr>s_name = Some ''Ada'', s_total_contributions = None,
      s_languages = Some
        [(''C'', \<lparr>l_size = 3, l_occurrences = 1, l_color = None, l_prop = Some (Finite 100)\<rparr>)],
      s_repos = Some {Some ''x/a''},
      s_issues = Some 0, s_prs = Some 0\<rparr>"







section \<open>The loop, round by round\<close>

lemma loop_step_more:
  "answered srv k \<Longrightarrow> has_next (page srv k) \<Longrightarrow>
   overview_loop P srv k st oc cc sent =
   overview_loop P srv (Suc k) (aggregate_page P (page srv k) st)
     (end_cursor (owned_repos (page srv k)) oc) (end_cursor (contrib_repos (page srv k)) cc)
     (sent @ [(oc, cc)])"
  by (subst overview_loop.simps)
     (auto simp: answered_def page_def reply_def Let_def split: sum.splits)

lemma loop_step_stop:
  "answered srv k \<Longrightarrow> \<not> has_next (page srv k) \<Longrightarrow>
   overview_loop P srv k st oc cc sent =
   Some (None, aggregate_page P (page srv k) st, sent @ [(oc, cc)])"
  by (subst overview_loop.simps)
     (auto simp: answered_def page_def reply_def Let_def split: sum.splits)

lemma loop_step_fail:
  "\<not> answered srv k \<Longrightarrow>
   overview_loop P srv k st oc cc sent = Some (Some RequestFailed, st, sent @ [(oc, cc)])"
  by (subst overview_loop.simps)
     (auto simp: answered_def reply_def query_def split: sum.splits http.splits body.splits option.splits)


lemma loop_prefix:
  "\<forall>j<n. answered srv j \<and> has_next (page srv j) \<Longrightarrow>
   overview_loop P srv 0 st None None [] =
   overview_loop P srv n (state_at P srv st n) (fst (cursors_at srv n)) (snd (cursors_at srv n))
     (map (cursors_at srv) [0..<n])"
proof (induction n)
  case 0
  then show ?case by simp
next
  case (Suc n)
  then have "overview_loop P srv 0 st None None [] =
    overview_loop P srv n (state_at P srv st n) (fst (cursors_at srv n)) (snd (cursors_at srv n))
     (map (cursors_at srv) [0..<n])" by simp
  also have "\<dots> = overview_loop P srv (Suc n) (state_at P srv st (Suc n))
     (fst (cursors_at srv (Suc n))) (snd (cursors_at srv (Suc n)))
     (map (cursors_at srv) [0..<Suc n])"
    using Suc.prems by (subst loop_step_more) simp_all
  finally show ?case .
qed

lemma loop_stop:
  assumes "stops_at srv n"
  shows "overview_loop P srv 0 st None None [] =
         Some (None, state_at P srv st (Suc n), map (cursors_at srv) [0..<Suc n])"
proof -
  from assms have pre: "\<forall>j<n. answered srv j \<and> has_next (page srv j)"
    and a: "answered srv n" and b: "\<not> has_next (page srv n)"
    by (simp_all add: stops_at_def)
  show ?thesis
    by (simp add: loop_prefix[OF pre] loop_step_stop[OF a b])
qed

lemma loop_fail:
  assumes "\<forall>j<n. answered srv j \<and> has_next (page srv j)" "\<not> answered srv n"
  shows "overview_loop P srv 0 st None None [] =
         Some (Some RequestFailed, state_at P srv st n, map (cursors_at srv) [0..<Suc n])"
  by (simp add: loop_prefix[OF assms(1)] loop_step_fail[OF assms(2)])


lemma loop_Some_ex:
  assumes "overview_loop P srv k st oc cc sent = Some y"
  shows "\<exists>j\<ge>k. \<not> (answered srv j \<and> has_next (page srv j))"
proof -
  let ?Q = "\<lambda>x (y::outcome). \<exists>j\<ge>snd (fst (fst (fst (fst x)))).
     \<not> (answered (snd (fst (fst (fst (fst (fst x)))))) j \<and>
        has_next (page (snd (fst (fst (fst (fst (fst x)))))) j))"
  have "?Q ((((((P, srv), k), st), oc), cc), sent) y"
  proof (rule overview_loop.raw_induct[where Pa = ?Q, OF _ assms], goal_cases)
    case (1 f P srv k st oc cc sent y)
    show ?case
    proof (cases "answered srv k \<and> has_next (page srv k)")
      case False
      then show ?thesis by auto
    next
      case True
      then obtain raw where r: "fst (query empty_raw (fst (srv k)) (snd (srv k))) = Inr raw"
        and pg: "page srv k = get_viewer raw"
        by (auto simp: answered_def page_def reply_def split: sum.splits)
      from True pg have more: "has_next (get_viewer raw)" by simp
      have "f P srv (Suc k) (aggregate_page P (page srv k) st)
        (end_cursor (owned_repos (page srv k)) oc) (end_cursor (contrib_repos (page srv k)) cc)
        (sent @ [(oc, cc)]) = Some y"
        using 1(2) by (simp add: r pg more Let_def)
      from 1(1)[OF this] obtain j where "Suc k \<le> j"
        "\<not> (answered srv j \<and> has_next (page srv j))" by auto
      then have "k \<le> j \<and> \<not> (answered srv j \<and> has_next (page srv j))" by simp
      then show ?thesis by auto
    qed
  qed
  then show ?thesis by simp
qed

lemma loop_diverge:
  "\<forall>j. answered srv j \<and> has_next (page srv j) \<Longrightarrow> overview_loop P srv k st oc cc sent = None"
proof (rule ccontr)
  assume all: "\<forall>j. answered srv j \<and> has_next (page srv j)"
    and "overview_loop P srv k st oc cc sent \<noteq> None"
  then obtain y where "overview_loop P srv k st oc cc sent = Some y" by auto
  from loop_Some_ex[OF this] all show False by blast
qed

section \<open>Pages, candidates and the accumulators\<close>

lemma aggregate_page_fields:
  "s_issues (aggregate_page P v st) = Some (total_count (closedIssues v) + total_count (openIssues v))"
  "s_prs (aggregate_page P v st) = Some (total_count (pullRequests v))"
  "s_repos (aggregate_page P v st) = Some (fst (fold (add_repo P) (page_repos P v) (acc_of st)))"
  "s_languages (aggregate_page P v st) = Some (snd (fold (add_repo P) (page_repos P v) (acc_of st)))"
  "s_total_contributions (aggregate_page P v st) = s_total_contributions st"
  by (simp_all add: aggregate_page_def acc_of_def Let_def)

lemma acc_of_aggregate_page:
  "acc_of (aggregate_page P v st) = fold (add_repo P) (page_repos P v) (acc_of st)"
  by (simp add: acc_of_def[of "aggregate_page P v st"] aggregate_page_fields dflt_def)

lemma candidates_Suc:
  "candidates P srv (Suc n) = candidates P srv n @ page_repos P (page srv n)"
  by (simp add: candidates_def)

lemma acc_of_state_at:
  "acc_of (state_at P srv st n) = fold (add_repo P) (candidates P srv n) (acc_of st)"
  by (induction n) (simp_all add: candidates_def acc_of_aggregate_page)

lemma acc_of_start: "acc_of (start st) = ({}, [])"
  by (simp add: acc_of_def start_def dflt_def)

lemma state_at_slots:
  "0 < n \<Longrightarrow> s_repos (state_at P srv st n) = Some (fst (acc_of (state_at P srv st n)))"
  "0 < n \<Longrightarrow> s_languages (state_at P srv st n) = Some (snd (acc_of (state_at P srv st n)))"
  by (cases n; simp add: aggregate_page_fields acc_of_aggregate_page)+

lemma fold_add_repo:
  "fold (add_repo P) rs (R, L) =
   (R \<union> set (map nameWithOwner (first_seen P R rs)), fold (add_langs P) (first_seen P R rs) L)"
proof (induction rs arbitrary: R L)
  case Nil
  then show ?case by simp
next
  case (Cons a rs)
  show ?case
  proof (cases a)
    case None
    then show ?thesis using Cons.IH by (simp add: add_repo_def)
  next
    case (Some r)
    then show ?thesis
      using Cons.IH by (auto simp: add_repo_def add_langs_def Let_def)
  qed
qed

lemma first_seen_names:
  "nameWithOwner ` set (first_seen P R rs) = set (idents rs) - R - exclude_repos P"
  by (induction P R rs rule: first_seen.induct) auto

lemma first_seen_fresh: "r \<in> set (first_seen P R rs) \<Longrightarrow> nameWithOwner r \<notin> R"
  using first_seen_names[of P R rs] by blast

lemma first_seen_distinct: "distinct (map nameWithOwner (first_seen P R rs))"
  by (induction P R rs rule: first_seen.induct) (auto dest: first_seen_fresh)

lemma first_seen_sub: "Some ` set (first_seen P R rs) \<subseteq> set rs"
  by (induction P R rs rule: first_seen.induct) auto

section \<open>The request gateway: fallback and retry\<close>

text \<open>
  C2, as amended. \<open>Queries.query\<close> issues one request when the asynchronous transport
  does not raise, and exactly one more, on the synchronous transport, when it does. If
  the synchronous transport raises too, the exception leaves \<open>query\<close>: the call does not
  return the empty dictionary. The empty dictionary is returned only for a response
  whose body decodes to \<open>None\<close>.
\<close>

theorem query_fallback_once:
  "query e p f =
     (if raises p then (if raises f then Inl RequestFailed else Inr (payload e f), 2)
      else (Inr (payload e p), 1))"
  by (auto simp: raises_def query_def payload_def split: http.splits body.splits option.splits)

theorem query_fallback_once_witness:
  "query empty_raw ConnFail (Http 200 (Json None)) = (Inr empty_raw, 2)"
  using query_fallback_once[of empty_raw ConnFail "Http 200 (Json None)"]
  by (simp add: raises_def payload_def)

text \<open>
  C2, as stated, fails: with both transports raising, \<open>query\<close> raises after its second
  request instead of returning the empty dictionary.
\<close>

theorem query_both_fail_propagates:
  "query empty_raw ConnFail ConnFail = (Inl RequestFailed, 2)"
  by (simp add: query_def)

















section \<open>Rounding to a double\<close>

lemma pow2_pos: "0 < pow2 e"
  by (simp add: pow2_def)

lemma pow2_add: "pow2 (a + b) = pow2 a * pow2 b"
  by (simp add: pow2_def power_int_add)

lemma pow2_mono: "a \<le> b \<Longrightarrow> pow2 a \<le> pow2 b"
  by (simp add: pow2_def power_int_increasing)

lemma pow2_less: "pow2 a < pow2 b \<Longrightarrow> a < b"
proof (rule ccontr)
  assume l: "pow2 a < pow2 b" and "\<not> a < b"
  then have "b \<le> a" by simp
  from pow2_mono[OF this] l show False by simp
qed

lemma pow2_nat: "pow2 (int n) = 2 ^ n"
  by (simp add: pow2_def)

lemma bitlen_pow2_bounds:
  assumes "0 < p"
  shows "pow2 (bitlen p - 1) \<le> of_int p" "of_int p < pow2 (bitlen p)"
proof -
  from bitlen_bounds[OF assms] have lo: "2 ^ nat (bitlen p - 1) \<le> p" and hi: "p < 2 ^ nat (bitlen p)"
    by simp_all
  have b1: "1 \<le> bitlen p" using assms by (simp add: bitlen_alt_def)
  have "pow2 (bitlen p - 1) = of_int (2 ^ nat (bitlen p - 1))"
    using b1 by (simp add: pow2_def power_int_def)
  also have "\<dots> \<le> of_int p" using lo by (simp only: of_int_le_iff)
  finally show "pow2 (bitlen p - 1) \<le> of_int p" .
  have "(of_int p :: rat) < of_int (2 ^ nat (bitlen p))" using hi by (simp only: of_int_less_iff)
  also have "\<dots> = pow2 (bitlen p)"
    using b1 by (simp add: pow2_def power_int_def)
  finally show "of_int p < pow2 (bitlen p)" .
qed

lemma exponent_bounds:
  assumes "x \<noteq> 0"
  shows "pow2 (exponent x) \<le> \<bar>x\<bar>" "\<bar>x\<bar> < pow2 (exponent x + 1)"
proof -
  obtain p q where pq: "quotient_of \<bar>x\<bar> = (p, q)" by (cases "quotient_of \<bar>x\<bar>")
  have q: "0 < q" using quotient_of_denom_pos[OF pq] .
  have x: "\<bar>x\<bar> = of_int p / of_int q" using quotient_of_div[OF pq] .
  have "0 < \<bar>x\<bar>" using assms by simp
  then have p: "0 < p" unfolding x using q by (simp add: zero_less_divide_iff)
  define d where "d = bitlen p - bitlen q"
  note bp = bitlen_pow2_bounds[OF p] and bq = bitlen_pow2_bounds[OF q]
  have qpos: "(0::rat) < of_int q" using q by simp
  have lo: "pow2 (d - 1) \<le> \<bar>x\<bar>"
  proof -
    have "pow2 (d - 1) * of_int q \<le> pow2 (d - 1) * pow2 (bitlen q)"
      using bq(2) pow2_pos[of "d - 1"] by (simp add: mult_left_mono less_imp_le)
    also have "\<dots> = pow2 (bitlen p - 1)"
      unfolding d_def pow2_add[symmetric] by simp
    also have "\<dots> \<le> of_int p" by (rule bp(1))
    finally show ?thesis unfolding x using qpos by (simp add: pos_le_divide_eq)
  qed
  have hi: "\<bar>x\<bar> < pow2 (d + 1)"
  proof -
    have "of_int p < pow2 (bitlen p)" by (rule bp(2))
    also have "\<dots> = pow2 (d + 1) * pow2 (bitlen q - 1)"
      unfolding d_def pow2_add[symmetric] by simp
    also have "\<dots> \<le> pow2 (d + 1) * of_int q"
      using bq(1) pow2_pos[of "d + 1"] by (simp add: mult_left_mono less_imp_le)
    finally show ?thesis unfolding x using qpos by (simp add: pos_divide_less_eq)
  qed
  have e: "exponent x = (if pow2 d \<le> \<bar>x\<bar> then d else d - 1)"
    by (simp add: exponent_def pq d_def Let_def)
  show "pow2 (exponent x) \<le> \<bar>x\<bar>"
    unfolding e using lo by simp
  show "\<bar>x\<bar> < pow2 (exponent x + 1)"
    unfolding e using hi by (simp add: not_le)
qed

lemma exponent_unique:
  assumes "pow2 e \<le> \<bar>x\<bar>" "\<bar>x\<bar> < pow2 (e + 1)"
  shows "exponent x = e"
proof -
  have "x \<noteq> 0" using assms(1) pow2_pos[of e] by auto
  note b = exponent_bounds[OF this]
  have "pow2 (exponent x) < pow2 (e + 1)" using b(1) assms(2) by simp
  then have 1: "exponent x < e + 1" by (rule pow2_less)
  have "pow2 e < pow2 (exponent x + 1)" using b(2) assms(1) by simp
  then have 2: "e < exponent x + 1" by (rule pow2_less)
  from 1 2 show ?thesis by simp
qed

lemma round_even_error: "\<bar>of_int (round_even x) - x\<bar> \<le> 1 / 2"
proof -
  have "of_int \<lfloor>x\<rfloor> \<le> x" "x < of_int \<lfloor>x\<rfloor> + 1" by linarith+
  then show ?thesis
    by (auto simp: round_even_def Let_def)
qed

lemma round_even_unique:
  assumes "\<bar>x - of_int n\<bar> < 1 / 2"
  shows "round_even x = n"
proof -
  have e: "\<bar>of_int (round_even x) - x\<bar> \<le> 1 / 2" by (rule round_even_error)
  have "\<bar>(of_int (round_even x) :: rat) - of_int n\<bar> < 1"
    using e assms by linarith
  then have "\<bar>(of_int (round_even x - n) :: rat)\<bar> < 1" by simp
  then have "\<bar>round_even x - n\<bar> < 1"
    by (metis of_int_abs of_int_less_1_iff)
  then show ?thesis by simp
qed

lemma nearest_double_eq:
  assumes "pow2 e \<le> \<bar>x\<bar>" "\<bar>x\<bar> < pow2 (e + 1)"
    and "\<bar>x / pow2 (max (e - 52) (- 1074)) - of_int n\<bar> < 1 / 2"
  shows "nearest_double x = of_int n * pow2 (max (e - 52) (- 1074))"
proof -
  have "x \<noteq> 0" using assms(1) pow2_pos[of e] by auto
  then show ?thesis
    by (simp add: nearest_double_def exponent_unique[OF assms(1,2)] round_even_unique[OF assms(3)]
        Let_def)
qed


lemma nearest_double_0: "nearest_double 0 = 0"
  by (simp add: nearest_double_def)


text \<open>The roundings of the example runs.\<close>

lemma nd_1: "nearest_double 1 = 1"
  using nearest_double_eq[of 0 1 "2 ^ 52"] by (simp add: pow2_def)

lemma nd_100: "nearest_double 100 = 100"
  using nearest_double_eq[of 6 100 "100 * 2 ^ 46"] by (simp add: pow2_def)

lemma example_floats:
  "int_truediv 4 4 = Inr 1" "int_truediv 0 4 = Inr 0"
  "float_mul 100 1 = Finite 100" "float_mul 100 0 = Finite 0"
  by (simp_all add: int_truediv_def float_mul_def nd_1 nd_100 nearest_double_0 overflow_def pow2_def)











section \<open>The accuracy of a proportion\<close>











section \<open>The final pass and whole runs\<close>

lemma set_props_totals: "totals (snd (set_props t l)) = totals l"
  by (induction t l rule: set_props.induct)
     (auto simp: totals_def split: sum.splits prod.splits)

lemma set_props_keys: "map fst (snd (set_props t l)) = map fst l"
  by (induction t l rule: set_props.induct) (auto split: sum.splits prod.splits)


lemma get_stats_stop:
  assumes "stops_at srv n"
  shows "get_stats P srv st =
    (let st' = state_at P srv (start st) (Suc n); l = snd (acc_of st') in
     Some (fst (set_props (langs_total l) l),
           st'\<lparr>s_languages := Some (snd (set_props (langs_total l) l))\<rparr>,
           map (cursors_at srv) [0..<Suc n]))"
proof -
  have l: "dflt [] (s_languages (state_at P srv (start st) (Suc n))) =
           snd (acc_of (state_at P srv (start st) (Suc n)))"
    by (simp add: acc_of_def)
  show ?thesis
    unfolding get_stats_def start_def[symmetric] loop_stop[OF assms]
    by (simp add: l Let_def split: prod.splits del: state_at.simps upt_Suc)
qed

lemma get_stats_stop_ex:
  assumes "stops_at srv n"
  shows "\<exists>e st'. get_stats P srv st = Some (e, st', map (cursors_at srv) [0..<Suc n]) \<and>
     s_name st' = s_name (state_at P srv (start st) (Suc n)) \<and>
     s_issues st' = s_issues (state_at P srv (start st) (Suc n)) \<and>
     s_prs st' = s_prs (state_at P srv (start st) (Suc n)) \<and>
     s_repos st' = s_repos (state_at P srv (start st) (Suc n)) \<and>
     totals (snd (acc_of st')) = totals (snd (acc_of (state_at P srv (start st) (Suc n)))) \<and>
     map fst (snd (acc_of st')) = map fst (snd (acc_of (state_at P srv (start st) (Suc n))))"
  unfolding get_stats_stop[OF assms]
  by (simp add: Let_def acc_of_def dflt_def set_props_totals set_props_keys
      del: state_at.simps upt_Suc)

section \<open>The example runs\<close>

lemmas example_defs = example_settings_def named_edge_def repo_a_def repo_secret_def repo_Secret_def
  first_page_def last_page_def ok_response_def two_pages_def one_page_def

lemmas run_defs = query_def get_viewer_def dflt_def empty_raw_def empty_data_def
  empty_viewer_def empty_repo_conn_def empty_page_info_def empty_count_conn_def
  empty_lang_conn_def empty_lang_node_def aggregate_page_def has_next_def end_cursor_def
  owned_repos_def contrib_repos_def total_count_def page_repos_def add_repo_def merge_edge_def
  exclude_langs_lower_def lower_def lower_char_def langs_total_def Let_def
  reply_def answered_def page_def

lemma two_pages_stop: "stops_at two_pages 1"
  by (simp add: stops_at_def example_defs run_defs)

lemma one_page_stop: "stops_at one_page 0"
  by (simp add: stops_at_def example_defs run_defs)

section \<open>Issue and pull-request totals\<close>

text \<open>
  C1, as amended. \<open>get_stats\<close> assigns \<open>_issues\<close> and \<open>_prs\<close> in every round of the loop,
  so in a run that stops at page \<open>n\<close> the stored values are those of page \<open>n\<close>, the last
  page, whatever the earlier pages held; an absent count reads as \<open>0\<close>.
\<close>

theorem issues_and_prs_from_last_page:
  "stops_at srv n \<Longrightarrow>
   \<exists>e st' sent. get_stats P srv st = Some (e, st', sent) \<and>
     s_issues st' =
       Some (total_count (closedIssues (page srv n)) + total_count (openIssues (page srv n))) \<and>
     s_prs st' = Some (total_count (pullRequests (page srv n)))"
  using get_stats_stop_ex[of srv n P st] by (auto simp: aggregate_page_fields)

text \<open>An instance: the two-page run stores the counts of its second page.\<close>

theorem issues_and_prs_from_last_page_witness:
  "stops_at two_pages 1 \<and>
   (\<exists>e st' sent. get_stats example_settings two_pages init = Some (e, st', sent) \<and>
      s_issues st' = Some 10 \<and> s_prs st' = Some 5)"
proof -
  have h: "stops_at two_pages 1" by (rule two_pages_stop)
  have "\<exists>e st' sent. get_stats example_settings two_pages init = Some (e, st', sent) \<and>
      s_issues st' = Some 10 \<and> s_prs st' = Some 5"
    using issues_and_prs_from_last_page[OF h, of example_settings init]
    by (simp add: example_defs run_defs)
  with h show ?thesis by blast
qed

text \<open>
  C1, as stated, fails: the first page of the two-page run gives \<open>2\<close> issues and \<open>1\<close> pull
  request, and the run stores \<open>10\<close> and \<open>5\<close>, the counts of the second page.
\<close>

theorem issues_and_prs_not_from_first_page:
  "get_stats example_settings two_pages init =
     Some (None,
       \<lparr>s_name = Some ''Ada'', s_total_contributions = None,
        s_languages = Some
          [(''C'', \<lparr>l_size = 4, l_occurrences = 2, l_color = None, l_prop = Some (Finite 100)\<rparr>),
           (''Other'', \<lparr>l_size = 0, l_occurrences = 1, l_color = None, l_prop = Some (Finite 0)\<rparr>)],
        s_repos = Some {Some ''X/Secret'', Some ''x/a''},
        s_issues = Some 10, s_prs = Some 5\<rparr>,
       [(None, None), (Some ''c1'', None)]) \<and>
   total_count (closedIssues (page two_pages 0)) + total_count (openIssues (page two_pages 0)) = 2 \<and>
   total_count (pullRequests (page two_pages 0)) = 1"
  by (simp add: get_stats_def overview_loop.simps init_def example_defs run_defs insert_commute
      example_floats)

section \<open>The language table\<close>

lemma merge_edge_excluded:
  "lower (edge_name lang) \<in> exclude_langs_lower P \<Longrightarrow> merge_edge P lang l = l"
  by (simp add: merge_edge_def edge_name_def)

lemma merge_edge_included:
  "lower (edge_name lang) \<notin> exclude_langs_lower P \<Longrightarrow>
   merge_edge P lang l =
     AList.update (edge_name lang) (merged_entry lang (map_of l (edge_name lang))) l"
  by (simp add: merge_edge_def edge_name_def edge_size_def edge_color_def merged_entry_def
      split: option.splits)

lemma keys_merge_edge:
  "keys (merge_edge P lang l) =
     (if lower (edge_name lang) \<in> exclude_langs_lower P then keys l
      else insert (edge_name lang) (keys l))"
  by (simp add: merge_edge_excluded merge_edge_included keys_def dom_update)

lemma clean_merge_edge: "clean P l \<Longrightarrow> clean P (merge_edge P lang l)"
  by (simp add: clean_def keys_merge_edge)

lemma clean_fold_merge: "clean P l \<Longrightarrow> clean P (fold (merge_edge P) es l)"
  by (induction es arbitrary: l) (simp_all add: clean_merge_edge)

lemma clean_add_repo: "clean P (snd acc) \<Longrightarrow> clean P (snd (add_repo P r acc))"
  by (cases r) (simp_all add: add_repo_def Let_def clean_fold_merge)

lemma clean_fold_add_repo: "clean P (snd acc) \<Longrightarrow> clean P (snd (fold (add_repo P) rs acc))"
  by (induction rs arbitrary: acc) (simp_all add: clean_add_repo)

lemma clean_state_at: "clean P (snd (acc_of (state_at P srv (start st) n)))"
  unfolding acc_of_state_at acc_of_start
  by (rule clean_fold_add_repo) (simp add: clean_def keys_def)

lemma occurrences_merge_edge:
  "occurrences_of (merge_edge P lang l) k =
     occurrences_of l k +
     (if edge_name lang = k \<and> lower k \<notin> exclude_langs_lower P then 1 else 0)"
  by (cases "lower (edge_name lang) \<in> exclude_langs_lower P")
     (auto simp: merge_edge_excluded merge_edge_included occurrences_of_def update_conv'
        merged_entry_def split: option.splits)

lemma size_merge_edge:
  "size_of (merge_edge P lang l) k =
     size_of l k +
     (if edge_name lang = k \<and> lower k \<notin> exclude_langs_lower P then edge_size lang else 0)"
  by (cases "lower (edge_name lang) \<in> exclude_langs_lower P")
     (auto simp: merge_edge_excluded merge_edge_included size_of_def update_conv'
        merged_entry_def split: option.splits)

lemma occurrences_fold_merge:
  "lower k \<notin> exclude_langs_lower P \<Longrightarrow>
   occurrences_of (fold (merge_edge P) es l) k =
     occurrences_of l k + int (length (filter (\<lambda>e. edge_name e = k) es))"
  by (induction es arbitrary: l) (simp_all add: occurrences_merge_edge)

lemma size_fold_merge:
  "lower k \<notin> exclude_langs_lower P \<Longrightarrow>
   size_of (fold (merge_edge P) es l) k =
     size_of l k + sum_list (map edge_size (filter (\<lambda>e. edge_name e = k) es))"
  by (induction es arbitrary: l) (simp_all add: size_merge_edge)

lemma loop_result_state:
  assumes "overview_loop P srv 0 st None None [] = Some (e, st', sent)"
  shows "\<exists>n. st' = state_at P srv st n"
proof -
  from loop_Some_ex[OF assms]
  obtain j where j: "\<not> (answered srv j \<and> has_next (page srv j))" by blast
  define m where "m = (LEAST k. \<not> (answered srv k \<and> has_next (page srv k)))"
  have a: "\<not> (answered srv m \<and> has_next (page srv m))"
    unfolding m_def using j by (rule LeastI)
  have b: "\<forall>i<m. answered srv i \<and> has_next (page srv i)"
    unfolding m_def using not_less_Least by blast
  show ?thesis
  proof (cases "answered srv m")
    case True
    with a b have "stops_at srv m" by (simp add: stops_at_def)
    from loop_stop[OF this, of P st] assms have "st' = state_at P srv st (Suc m)"
      by (simp del: state_at.simps upt_Suc)
    then show ?thesis by blast
  next
    case False
    from loop_fail[OF b False, of P st] assms have "st' = state_at P srv st m"
      by (simp del: state_at.simps upt_Suc)
    then show ?thesis by blast
  qed
qed

lemma get_stats_cases:
  assumes "get_stats P srv st = Some (e, st', sent)"
  shows "\<exists>e0 st0. overview_loop P srv 0 (start st) None None [] = Some (e0, st0, sent) \<and>
     map fst (snd (acc_of st')) = map fst (snd (acc_of st0))"
proof (cases "overview_loop P srv 0 (start st) None None []")
  case None
  with assms show ?thesis by (simp add: get_stats_def start_def)
next
  case (Some r)
  obtain e0 st0 sent0 where r: "r = (e0, st0, sent0)" by (cases r)
  show ?thesis
  proof (cases e0)
    case None
    with assms Some r have "sent = sent0"
      and "st' = st0\<lparr>s_languages := Some (snd (set_props (langs_total (dflt [] (s_languages st0)))
             (dflt [] (s_languages st0))))\<rparr>"
      by (auto simp: get_stats_def start_def Let_def split: prod.splits)
    then show ?thesis
      using Some r None by (simp add: acc_of_def set_props_keys dflt_def)
  next
    case (Some x)
    with assms \<open>overview_loop P srv 0 (start st) None None [] = Some r\<close> r
    have "sent = sent0" "st' = st0"
      by (auto simp: get_stats_def start_def)
    then show ?thesis
      using \<open>overview_loop P srv 0 (start st) None None [] = Some r\<close> r by simp
  qed
qed

lemma get_stats_result_keys:
  assumes "get_stats P srv st = Some (e, st', sent)"
  shows "\<exists>n. keys (snd (acc_of st')) = keys (snd (acc_of (state_at P srv (start st) n)))"
proof -
  from get_stats_cases[OF assms] obtain e0 st0 where
    l: "overview_loop P srv 0 (start st) None None [] = Some (e0, st0, sent)"
    and m: "map fst (snd (acc_of st')) = map fst (snd (acc_of st0))"
    by blast
  from m have k: "keys (snd (acc_of st')) = keys (snd (acc_of st0))"
    unfolding keys_def by (metis set_map)
  from loop_result_state[OF l] k show ?thesis by auto
qed

lemma get_stats_clean:
  assumes "get_stats P srv st = Some (e, st', sent)"
  shows "clean P (snd (acc_of st'))"
proof -
  from get_stats_result_keys[OF assms] obtain n where
    "keys (snd (acc_of st')) = keys (snd (acc_of (state_at P srv (start st) n)))" ..
  with clean_state_at[of P srv st n] show ?thesis by (simp add: clean_def)
qed


lemma two_pages_result:
  "get_stats example_settings two_pages init =
     Some (None, example_final, [(None, None), (Some ''c1'', None)])"
  by (simp add: get_stats_def overview_loop.simps init_def example_final_def example_defs
      run_defs insert_commute example_floats)

section \<open>Exclusion and the repo set\<close>

lemma snd_acc_of: "snd (acc_of st) = dflt [] (s_languages st)"
  by (simp add: acc_of_def)

lemma lower_hit: "x \<in> exclude_langs P \<Longrightarrow> lower nm = lower x \<Longrightarrow> lower nm \<in> exclude_langs_lower P"
  by (simp add: exclude_langs_lower_def)

lemma stop_repos:
  assumes "stops_at srv n" "get_stats P srv st = Some (e, st', sent)"
  shows "s_repos st' = Some (nameWithOwner ` set (first_seen P {} (candidates P srv (Suc n))))"
proof -
  from get_stats_stop_ex[OF assms(1), of P st] assms(2)
  have "s_repos st' = s_repos (state_at P srv (start st) (Suc n))" by auto
  also have "\<dots> = Some (fst (acc_of (state_at P srv (start st) (Suc n))))"
    by (rule state_at_slots) simp
  also have "\<dots> = Some (nameWithOwner ` set (first_seen P {} (candidates P srv (Suc n))))"
    unfolding acc_of_state_at acc_of_start fold_add_repo by simp
  finally show ?thesis .
qed

lemma stop_totals:
  assumes "stops_at srv n" "get_stats P srv st = Some (e, st', sent)"
  shows "totals (dflt [] (s_languages st')) =
         totals (fold (add_langs P) (first_seen P {} (candidates P srv (Suc n))) [])"
proof -
  from get_stats_stop_ex[OF assms(1), of P st] assms(2)
  have "totals (snd (acc_of st')) = totals (snd (acc_of (state_at P srv (start st) (Suc n))))"
    by auto
  then show ?thesis
    unfolding acc_of_state_at acc_of_start fold_add_repo by (simp add: snd_acc_of)
qed

lemma two_pages_candidates:
  "candidates example_settings two_pages 2 =
     [Some repo_a, None, Some repo_secret, Some repo_a, Some repo_a, Some repo_Secret]"
  by (simp add: candidates_def numeral_2_eq_2 example_defs run_defs)

text \<open>
  C8. Whenever \<open>get_stats\<close> returns, no key of the language table has the lower-case form
  of an excluded language, whatever the case of either: with the exclusion set
  \<open>{"python"}\<close> the language \<open>Python\<close> is not in the table. In a run that stops, the repo
  set is the set of candidate identifiers less the excluded identifiers themselves, so
  an identifier is left out for exclusion only when it equals an excluded one.
\<close>

theorem exclusion_matching:
  "(get_stats P srv st = Some (e, st', sent) \<and> x \<in> exclude_langs P \<and> lower nm = lower x
      \<longrightarrow> nm \<notin> keys (dflt [] (s_languages st'))) \<and>
   (get_stats P srv st = Some (e, st', sent) \<and> exclude_langs P = {''python''}
      \<longrightarrow> ''Python'' \<notin> keys (dflt [] (s_languages st'))) \<and>
   (stops_at srv n \<and> get_stats P srv st = Some (e, st', sent)
      \<longrightarrow> s_repos st' = Some (set (idents (candidates P srv (Suc n))) - exclude_repos P))"
proof (intro conjI impI)
  assume a: "get_stats P srv st = Some (e, st', sent) \<and> x \<in> exclude_langs P \<and> lower nm = lower x"
  then have "clean P (dflt [] (s_languages st'))"
    using get_stats_clean[of P srv st e st' sent] by (simp add: snd_acc_of)
  moreover from a have "lower nm \<in> exclude_langs_lower P" using lower_hit by blast
  ultimately show "nm \<notin> keys (dflt [] (s_languages st'))"
    unfolding clean_def by blast
next
  assume a: "get_stats P srv st = Some (e, st', sent) \<and> exclude_langs P = {''python''}"
  then have "clean P (dflt [] (s_languages st'))"
    using get_stats_clean[of P srv st e st' sent] by (simp add: snd_acc_of)
  moreover have "lower ''Python'' = lower ''python''"
    by (simp add: lower_def lower_char_def)
  with a have "lower ''Python'' \<in> exclude_langs_lower P"
    by (simp add: exclude_langs_lower_def)
  ultimately show "''Python'' \<notin> keys (dflt [] (s_languages st'))"
    unfolding clean_def by blast
next
  assume "stops_at srv n \<and> get_stats P srv st = Some (e, st', sent)"
  then show "s_repos st' = Some (set (idents (candidates P srv (Suc n))) - exclude_repos P)"
    using stop_repos[of srv n P st e st' sent] by (simp add: first_seen_names)
qed

text \<open>
  An instance: the two-page run excludes \<open>python\<close> and \<open>x/secret\<close>; \<open>Python\<close> is dropped
  and \<open>X/Secret\<close> is kept.
\<close>

theorem exclusion_matching_witness:
  "get_stats example_settings two_pages init =
     Some (None, example_final, [(None, None), (Some ''c1'', None)]) \<and>
   ''python'' \<in> exclude_langs example_settings \<and> lower ''Python'' = lower ''python'' \<and>
   exclude_langs example_settings = {''python''} \<and> stops_at two_pages 1 \<and>
   ''Python'' \<notin> keys (dflt [] (s_languages example_final)) \<and>
   s_repos example_final =
     Some (set (idents (candidates example_settings two_pages 2)) - exclude_repos example_settings) \<and>
   set (idents (candidates example_settings two_pages 2)) - exclude_repos example_settings =
     {Some ''x/a'', Some ''X/Secret''}"
proof -
  note t = exclusion_matching[of example_settings two_pages init None example_final
      "[(None, None), (Some ''c1'', None)]" "''python''" "''Python''" 1]
  have g: "get_stats example_settings two_pages init =
     Some (None, example_final, [(None, None), (Some ''c1'', None)])"
    by (rule two_pages_result)
  have x: "''python'' \<in> exclude_langs example_settings" "exclude_langs example_settings = {''python''}"
    by (simp_all add: example_settings_def)
  have lo: "lower ''Python'' = lower ''python''"
    by (simp add: lower_def lower_char_def)
  have h: "stops_at two_pages 1" by (rule two_pages_stop)
  have k: "''Python'' \<notin> keys (dflt [] (s_languages example_final))"
    using t g x lo by blast
  have r: "s_repos example_final =
     Some (set (idents (candidates example_settings two_pages 2)) - exclude_repos example_settings)"
    using t g h by (simp add: numeral_2_eq_2 del: upt_Suc)
  have v: "set (idents (candidates example_settings two_pages 2)) - exclude_repos example_settings =
     {Some ''x/a'', Some ''X/Secret''}"
    unfolding two_pages_candidates
    by (auto simp: example_defs)
  from g x lo h k r v show ?thesis by blast
qed

lemma two_pages_merged:
  "first_seen example_settings {}
     [Some repo_a, None, Some repo_secret, Some repo_a, Some repo_a, Some repo_Secret] =
   [repo_a, repo_Secret]"
  by (simp add: example_settings_def repo_a_def repo_secret_def repo_Secret_def)

text \<open>
  C5. In a run that stops at page \<open>n\<close>, let \<open>cands\<close> be the candidate repositories of the
  pages \<open>0\<close> to \<open>n\<close>, owned and contributed-to, in the order met, with whatever overlaps
  and repeats, and \<open>merged\<close> the repositories whose languages the loop merged. Then the
  repo set is the set of identifiers of \<open>merged\<close>; these identifiers are pairwise distinct,
  so each identifier is represented, and its languages merged, exactly once; they are the
  candidate identifiers less the excluded ones, so no excluded identifier is in the set;
  and the sizes and occurrences of the language table are those of merging the languages
  of \<open>merged\<close> alone, so an excluded repository adds nothing to them.
\<close>

theorem repo_set_has_no_duplicates:
  "cands = candidates P srv (Suc n) \<Longrightarrow> merged = first_seen P {} cands \<Longrightarrow> stops_at srv n \<Longrightarrow>
   \<exists>e st' sent. get_stats P srv st = Some (e, st', sent) \<and>
     s_repos st' = Some (nameWithOwner ` set merged) \<and>
     distinct (map nameWithOwner merged) \<and>
     Some ` set merged \<subseteq> set cands \<and>
     nameWithOwner ` set merged = set (idents cands) - exclude_repos P \<and>
     nameWithOwner ` set merged \<inter> exclude_repos P = {} \<and>
     totals (dflt [] (s_languages st')) = totals (fold (add_langs P) merged [])"
proof -
  assume c: "cands = candidates P srv (Suc n)" and m: "merged = first_seen P {} cands"
    and s: "stops_at srv n"
  from get_stats_stop_ex[OF s, of P st] obtain e st' where
    g: "get_stats P srv st = Some (e, st', map (cursors_at srv) [0..<Suc n])" by blast
  have n: "nameWithOwner ` set merged = set (idents cands) - exclude_repos P"
    unfolding m by (simp add: first_seen_names)
  have "s_repos st' = Some (nameWithOwner ` set merged)"
    unfolding m c by (rule stop_repos[OF s g])
  moreover have "distinct (map nameWithOwner merged)"
    unfolding m by (rule first_seen_distinct)
  moreover have "Some ` set merged \<subseteq> set cands"
    unfolding m by (rule first_seen_sub)
  moreover have "nameWithOwner ` set merged \<inter> exclude_repos P = {}"
    unfolding n by blast
  moreover have "totals (dflt [] (s_languages st')) = totals (fold (add_langs P) merged [])"
    unfolding m c by (rule stop_totals[OF s g])
  ultimately have "get_stats P srv st = Some (e, st', map (cursors_at srv) [0..<Suc n]) \<and>
     s_repos st' = Some (nameWithOwner ` set merged) \<and>
     distinct (map nameWithOwner merged) \<and>
     Some ` set merged \<subseteq> set cands \<and>
     nameWithOwner ` set merged = set (idents cands) - exclude_repos P \<and>
     nameWithOwner ` set merged \<inter> exclude_repos P = {} \<and>
     totals (dflt [] (s_languages st')) = totals (fold (add_langs P) merged [])"
    using g n by (intro conjI)
  then show ?thesis by (intro exI)
qed

text \<open>
  An instance: in the two-page run \<open>x/a\<close> is met three times and merged once, and
  \<open>x/secret\<close> is excluded.
\<close>

theorem repo_set_has_no_duplicates_witness:
  "candidates example_settings two_pages 2 =
     [Some repo_a, None, Some repo_secret, Some repo_a, Some repo_a, Some repo_Secret] \<and>
   first_seen example_settings {} (candidates example_settings two_pages 2) = [repo_a, repo_Secret] \<and>
   stops_at two_pages 1 \<and>
   (\<exists>e st' sent. get_stats example_settings two_pages init = Some (e, st', sent) \<and>
      s_repos st' = Some {Some ''x/a'', Some ''X/Secret''} \<and>
      totals (dflt [] (s_languages st')) = [(''C'', 4, 2), (''Other'', 0, 1)])"
proof -
  have c: "candidates example_settings two_pages 2 =
     [Some repo_a, None, Some repo_secret, Some repo_a, Some repo_a, Some repo_Secret]"
    by (rule two_pages_candidates)
  have m: "first_seen example_settings {} (candidates example_settings two_pages 2) =
     [repo_a, repo_Secret]"
    unfolding c by (rule two_pages_merged)
  have h: "stops_at two_pages 1" by (rule two_pages_stop)
  have c': "candidates example_settings two_pages 2 = candidates example_settings two_pages (Suc 1)"
    by (simp add: numeral_2_eq_2)
  have t: "totals (fold (add_langs example_settings) [repo_a, repo_Secret] []) =
     [(''C'', 4, 2), (''Other'', 0, 1)]"
    by (simp add: totals_def add_langs_def example_defs run_defs)
  have r: "nameWithOwner ` set [repo_a, repo_Secret] = {Some ''x/a'', Some ''X/Secret''}"
    by (simp add: repo_a_def repo_Secret_def)
  from repo_set_has_no_duplicates[OF c' m[symmetric] h, of init]
  obtain e st' sent where
    g: "get_stats example_settings two_pages init = Some (e, st', sent)"
    and s: "s_repos st' = Some (nameWithOwner ` set [repo_a, repo_Secret])"
    and l: "totals (dflt [] (s_languages st')) =
            totals (fold (add_langs example_settings) [repo_a, repo_Secret] [])"
    by (elim exE conjE)
  from g s l have "get_stats example_settings two_pages init = Some (e, st', sent) \<and>
      s_repos st' = Some {Some ''x/a'', Some ''X/Secret''} \<and>
      totals (dflt [] (s_languages st')) = [(''C'', 4, 2), (''Other'', 0, 1)]"
    unfolding t r by (intro conjI)
  then have "\<exists>e st' sent. get_stats example_settings two_pages init = Some (e, st', sent) \<and>
      s_repos st' = Some {Some ''x/a'', Some ''X/Secret''} \<and>
      totals (dflt [] (s_languages st')) = [(''C'', 4, 2), (''Other'', 0, 1)]"
    by (intro exI)
  with c m h show ?thesis by (intro conjI)
qed

section \<open>Edges with missing fields\<close>

lemma edge_name_absent:
  "edge_name (LangEdge sz None) = ''Other''"
  "edge_name (LangEdge sz (Some (LangNode None c))) = ''Other''"
  by (simp_all add: edge_name_def dflt_def empty_lang_node_def)

lemma edge_size_absent: "edge_size (LangEdge None nd) = 0"
  by (simp add: edge_size_def dflt_def)

lemma map_of_totals:
  "map_of (totals l) k = map_option (\<lambda>v. (l_size v, l_occurrences v)) (map_of l k)"
proof (induction l)
  case Nil
  show ?case by (simp add: totals_def)
next
  case (Cons kv l)
  then show ?case by (cases kv) (simp add: totals_def)
qed

lemma map_of_totals_eq:
  assumes "totals l = totals l'"
  shows "map_option (\<lambda>v. (l_size v, l_occurrences v)) (map_of l k) =
         map_option (\<lambda>v. (l_size v, l_occurrences v)) (map_of l' k)"
proof -
  have "map_of (totals l) k = map_of (totals l') k" by (simp only: assms)
  then show ?thesis by (simp only: map_of_totals)
qed

lemma occurrences_of_totals:
  "totals l = totals l' \<Longrightarrow> occurrences_of l k = occurrences_of l' k"
  using map_of_totals_eq[of l l' k]
  by (cases "map_of l k"; cases "map_of l' k") (simp_all add: occurrences_of_def)

lemma size_of_totals:
  "totals l = totals l' \<Longrightarrow> size_of l k = size_of l' k"
  using map_of_totals_eq[of l l' k]
  by (cases "map_of l k"; cases "map_of l' k") (simp_all add: size_of_def)

lemma fold_add_langs:
  "fold (add_langs P) rs l = fold (merge_edge P) (concat (map repo_edges rs)) l"
  by (induction rs arbitrary: l) (simp_all add: add_langs_def repo_edges_def)

lemma occurrences_nonzero_key:
  assumes "occurrences_of l k \<noteq> 0"
  shows "k \<in> keys l"
proof (cases "map_of l k")
  case None
  with assms show ?thesis by (simp add: occurrences_of_def)
next
  case (Some v)
  then have "(k, v) \<in> set l" by (rule map_of_SomeD)
  then have "fst (k, v) \<in> fst ` set l" by (rule imageI)
  then show ?thesis by (simp add: keys_def)
qed

lemma stop_table:
  assumes "stops_at srv n" "get_stats P srv st = Some (e, st', sent)"
    and "lower k \<notin> exclude_langs_lower P"
  shows "occurrences_of (dflt [] (s_languages st')) k =
           int (length (filter (\<lambda>e. edge_name e = k) (merged_edges P srv n)))"
    and "size_of (dflt [] (s_languages st')) k =
           sum_list (map edge_size (filter (\<lambda>e. edge_name e = k) (merged_edges P srv n)))"
proof -
  note t = stop_totals[OF assms(1,2)]
  have e: "occurrences_of [] k = 0" "size_of [] k = 0"
    by (simp_all add: occurrences_of_def size_of_def)
  show "occurrences_of (dflt [] (s_languages st')) k =
           int (length (filter (\<lambda>e. edge_name e = k) (merged_edges P srv n)))"
    unfolding occurrences_of_totals[OF t] fold_add_langs merged_edges_def
    by (simp add: occurrences_fold_merge[OF assms(3)] e)
  show "size_of (dflt [] (s_languages st')) k =
           sum_list (map edge_size (filter (\<lambda>e. edge_name e = k) (merged_edges P srv n)))"
    unfolding size_of_totals[OF t] fold_add_langs merged_edges_def
    by (simp add: size_fold_merge[OF assms(3)] e)
qed

text \<open>
  C10. A language edge without a node, or whose node has no name, is read under the
  name \<open>Other\<close>, and an edge without a size is read with size 0. In a run of
  \<open>get_stats\<close> that stops at page \<open>n\<close>, for every name \<open>k\<close> that is not excluded, the
  entry of \<open>k\<close> in the language table of the object counts exactly the edges read
  under \<open>k\<close> among the edges of the merged repositories, and its size is the sum of
  their sizes as read; so every edge of a merged repository whose name as read is not
  excluded has its key in the table, whether or not its fields are complete.
\<close>

theorem incomplete_edges_are_merged:
  "edge_name (LangEdge sz None) = ''Other'' \<and>
   edge_name (LangEdge sz (Some (LangNode None c))) = ''Other'' \<and>
   edge_size (LangEdge None nd) = 0 \<and>
   (stops_at srv n \<and> get_stats P srv st = Some (e, st', sent) \<and>
    lower k \<notin> exclude_langs_lower P \<longrightarrow>
      occurrences_of (dflt [] (s_languages st')) k =
        int (length (filter (\<lambda>e. edge_name e = k) (merged_edges P srv n))) \<and>
      size_of (dflt [] (s_languages st')) k =
        sum_list (map edge_size (filter (\<lambda>e. edge_name e = k) (merged_edges P srv n)))) \<and>
   (stops_at srv n \<and> get_stats P srv st = Some (e, st', sent) \<and>
    lang \<in> set (merged_edges P srv n) \<and> lower (edge_name lang) \<notin> exclude_langs_lower P \<longrightarrow>
      edge_name lang \<in> keys (dflt [] (s_languages st')))"
proof (intro conjI impI)
  show "edge_name (LangEdge sz None) = ''Other''"
    and "edge_name (LangEdge sz (Some (LangNode None c))) = ''Other''"
    by (rule edge_name_absent)+
  show "edge_size (LangEdge None nd) = 0" by (rule edge_size_absent)
next
  assume a: "stops_at srv n \<and> get_stats P srv st = Some (e, st', sent) \<and>
    lower k \<notin> exclude_langs_lower P"
  then show "occurrences_of (dflt [] (s_languages st')) k =
        int (length (filter (\<lambda>e. edge_name e = k) (merged_edges P srv n)))"
    using stop_table(1)[of srv n P st e st' sent k] by blast
  from a show "size_of (dflt [] (s_languages st')) k =
        sum_list (map edge_size (filter (\<lambda>e. edge_name e = k) (merged_edges P srv n)))"
    using stop_table(2)[of srv n P st e st' sent k] by blast
next
  assume a: "stops_at srv n \<and> get_stats P srv st = Some (e, st', sent) \<and>
    lang \<in> set (merged_edges P srv n) \<and> lower (edge_name lang) \<notin> exclude_langs_lower P"
  then have "lang \<in> set (filter (\<lambda>e. edge_name e = edge_name lang) (merged_edges P srv n))"
    by simp
  then have "0 < length (filter (\<lambda>e. edge_name e = edge_name lang) (merged_edges P srv n))"
    by (metis length_pos_if_in_set)
  moreover from a have "occurrences_of (dflt [] (s_languages st')) (edge_name lang) =
      int (length (filter (\<lambda>e. edge_name e = edge_name lang) (merged_edges P srv n)))"
    using stop_table(1)[of srv n P st e st' sent "edge_name lang"] by blast
  ultimately have "occurrences_of (dflt [] (s_languages st')) (edge_name lang) \<noteq> 0"
    by simp
  then show "edge_name lang \<in> keys (dflt [] (s_languages st'))"
    by (rule occurrences_nonzero_key)
qed

lemma two_pages_merged_edges:
  "merged_edges example_settings two_pages 1 =
     [named_edge ''C'' 3, named_edge ''Python'' 9, LangEdge None None, named_edge ''C'' 1]"
proof -
  have c: "candidates example_settings two_pages (Suc 1) =
     [Some repo_a, None, Some repo_secret, Some repo_a, Some repo_a, Some repo_Secret]"
    using two_pages_candidates by (simp add: numeral_2_eq_2)
  show ?thesis
    unfolding merged_edges_def c two_pages_merged
    by (simp add: repo_edges_def repo_a_def repo_Secret_def dflt_def)
qed

theorem incomplete_edges_are_merged_witness:
  "stops_at two_pages 1 \<and>
   get_stats example_settings two_pages init =
     Some (None, example_final, [(None, None), (Some ''c1'', None)]) \<and>
   lower ''Other'' \<notin> exclude_langs_lower example_settings \<and>
   LangEdge None None \<in> set (merged_edges example_settings two_pages 1) \<and>
   lower (edge_name (LangEdge None None)) \<notin> exclude_langs_lower example_settings \<and>
   occurrences_of (dflt [] (s_languages example_final)) ''Other'' = 1 \<and>
   size_of (dflt [] (s_languages example_final)) ''Other'' = 0 \<and>
   ''Other'' \<in> keys (dflt [] (s_languages example_final))"
proof -
  note t = incomplete_edges_are_merged[of None None None two_pages 1 example_settings init
      None example_final "[(None, None), (Some ''c1'', None)]" "''Other''" "LangEdge None None"]
  have h: "stops_at two_pages 1" by (rule two_pages_stop)
  have g: "get_stats example_settings two_pages init =
     Some (None, example_final, [(None, None), (Some ''c1'', None)])"
    by (rule two_pages_result)
  have x: "lower ''Other'' \<notin> exclude_langs_lower example_settings"
    by (simp add: exclude_langs_lower_def example_settings_def lower_def lower_char_def)
  have n: "edge_name (LangEdge None None) = ''Other''" using t by blast
  have m: "LangEdge None None \<in> set (merged_edges example_settings two_pages 1)"
    unfolding two_pages_merged_edges by simp
  have y: "lower (edge_name (LangEdge None None)) \<notin> exclude_langs_lower example_settings"
    using x by (simp add: n)
  have c: "length (filter (\<lambda>e. edge_name e = ''Other'')
      (merged_edges example_settings two_pages 1)) = 1"
    "sum_list (map edge_size (filter (\<lambda>e. edge_name e = ''Other'')
      (merged_edges example_settings two_pages 1))) = 0"
    unfolding two_pages_merged_edges
    by (simp_all add: named_edge_def edge_name_def edge_size_def dflt_def empty_lang_node_def)
  have t4: "occurrences_of (dflt [] (s_languages example_final)) ''Other'' =
        int (length (filter (\<lambda>e. edge_name e = ''Other'')
          (merged_edges example_settings two_pages 1))) \<and>
      size_of (dflt [] (s_languages example_final)) ''Other'' =
        sum_list (map edge_size (filter (\<lambda>e. edge_name e = ''Other'')
          (merged_edges example_settings two_pages 1)))"
    using t h g x by blast
  have 1: "occurrences_of (dflt [] (s_languages example_final)) ''Other'' = 1"
    using t4 c by simp
  have 2: "size_of (dflt [] (s_languages example_final)) ''Other'' = 0"
    using t4 c by simp
  have "edge_name (LangEdge None None) \<in> keys (dflt [] (s_languages example_final))"
    using t h g m y by blast
  then have 3: "''Other'' \<in> keys (dflt [] (s_languages example_final))"
    by (simp only: n)
  from h g x m y 1 2 3 show ?thesis by (intro conjI)
qed

section \<open>Termination of the pagination loop\<close>

lemma get_stats_None:
  "(get_stats P srv st = None) = (overview_loop P srv 0 (start st) None None [] = None)"
  unfolding get_stats_def start_def[symmetric]
  by (auto simp: Let_def split: option.splits sum.splits prod.splits)

lemma first_stop:
  assumes "\<forall>k. answered srv k" "\<not> has_next (page srv n)"
  shows "\<exists>m. stops_at srv m"
proof -
  define m where "m = (LEAST k. \<not> has_next (page srv k))"
  have a: "\<not> has_next (page srv m)"
    unfolding m_def using assms(2) by (rule LeastI)
  have b: "\<forall>j<m. has_next (page srv j)"
    unfolding m_def using not_less_Least by blast
  from a b assms(1) have "stops_at srv m" by (simp add: stops_at_def)
  then show ?thesis ..
qed

lemma terminates_iff:
  assumes "\<forall>k. answered srv k"
  shows "(\<exists>r. overview_loop P srv 0 st None None [] = Some r) = (\<exists>n. \<not> has_next (page srv n))"
proof
  assume "\<exists>r. overview_loop P srv 0 st None None [] = Some r"
  then obtain r where "overview_loop P srv 0 st None None [] = Some r" ..
  from loop_Some_ex[OF this] assms show "\<exists>n. \<not> has_next (page srv n)" by blast
next
  assume "\<exists>n. \<not> has_next (page srv n)"
  then obtain n where "\<not> has_next (page srv n)" ..
  from first_stop[OF assms this] obtain m where "stops_at srv m" ..
  from loop_stop[OF this] show "\<exists>r. overview_loop P srv 0 st None None [] = Some r" by blast
qed

lemmas three_calls_defs = owned_page_def owned_drained_def contrib_page_def call_of_def
  three_calls_def three_calls_final_def

lemma three_floats: "int_truediv 3 3 = Inr 1"
  by (simp add: int_truediv_def nd_1 overflow_def pow2_def)

text \<open>
  C7. The loop passes the previous cursor as the default of
  \<open>.get("endCursor", next_owned)\<close>, so a page without the key \<open>endCursor\<close> leaves the
  cursor as it was. A page whose \<open>endCursor\<close> is \<open>null\<close> has the key, and the cursor
  becomes \<open>None\<close>: in the three-page run the second page of owned repositories is empty
  and reports \<open>null\<close>, the owned cursor goes from \<open>c1\<close> back to \<open>None\<close>, and the third call
  asks for the owned repositories from their first page again, with the cursors
  \<open>(None, d2)\<close> where a retained cursor would give \<open>(c1, d2)\<close>.
\<close>

theorem null_end_cursor_resets_cursor:
  "has_next (page three_calls 0) \<and> has_next (page three_calls 1) \<and>
   \<not> has_next (page three_calls 2) \<and>
   endCursor (dflt empty_page_info (pageInfo (owned_repos (page three_calls 1)))) = Some None \<and>
   cursors_at three_calls 1 = (Some ''c1'', Some ''d1'') \<and>
   end_cursor (owned_repos (page three_calls 1)) (Some ''c1'') = None \<and>
   cursors_at three_calls 2 = (None, Some ''d2'') \<and>
   get_stats example_settings three_calls init =
     Some (None, three_calls_final,
       [(None, None), (Some ''c1'', Some ''d1''), (None, Some ''d2'')])"
proof (intro conjI)
  show "has_next (page three_calls 0)"
    by (simp add: three_calls_defs example_defs run_defs)
  show "has_next (page three_calls 1)"
    by (simp add: three_calls_defs example_defs run_defs)
  show "\<not> has_next (page three_calls 2)"
    by (simp add: three_calls_defs example_defs run_defs)
  show "endCursor (dflt empty_page_info (pageInfo (owned_repos (page three_calls 1)))) = Some None"
    by (simp add: three_calls_defs example_defs run_defs)
  show "cursors_at three_calls 1 = (Some ''c1'', Some ''d1'')"
    by (simp add: three_calls_defs example_defs run_defs)
  show "end_cursor (owned_repos (page three_calls 1)) (Some ''c1'') = None"
    by (simp add: three_calls_defs example_defs run_defs)
  show "cursors_at three_calls 2 = (None, Some ''d2'')"
    by (simp add: three_calls_defs example_defs run_defs numeral_2_eq_2)
  show "get_stats example_settings three_calls init =
     Some (None, three_calls_final,
       [(None, None), (Some ''c1'', Some ''d1''), (None, Some ''d2'')])"
    by (simp add: get_stats_def overview_loop.simps init_def three_calls_defs example_defs
        run_defs three_floats example_floats)
qed

section \<open>Language proportions\<close>
















section \<open>Reads of the issue and pull-request counts\<close>

text \<open>
  C4 at a failing input. On a new object \<open>issues\<close> and \<open>prs\<close> return \<open>0\<close> and leave the
  object as it is, whatever the server would answer: \<open>__init__\<close> sets both slots to \<open>0\<close>
  and the accessors test them against \<open>None\<close>, so \<open>get_stats\<close> is not run. Against the
  two-page server \<open>get_stats\<close> would store \<open>10\<close> and \<open>5\<close>, which is what the two
  accessors return once another accessor, here \<open>name\<close>, has run it.
\<close>

theorem issues_and_prs_read_before_get_stats:
  "issues P srv init = Some (Inr (Some 0), init) \<and>
   prs P srv init = Some (Inr (Some 0), init) \<and>
   get_stats example_settings two_pages init =
     Some (None, example_final, [(None, None), (Some ''c1'', None)]) \<and>
   s_issues example_final = Some 10 \<and> s_prs example_final = Some 5 \<and>
   name example_settings two_pages init = Some (Inr ''Ada'', example_final) \<and>
   issues example_settings two_pages example_final = Some (Inr (Some 10), example_final) \<and>
   prs example_settings two_pages example_final = Some (Inr (Some 5), example_final)"
proof -
  have i: "s_name init = None" "s_issues init = Some 0" "s_prs init = Some 0"
    by (simp_all add: init_def)
  have f: "s_name example_final = Some ''Ada''" "s_issues example_final = Some 10"
    "s_prs example_final = Some 5"
    by (simp_all add: example_final_def)
  show ?thesis
    by (simp add: issues_def prs_def name_def i f two_pages_result)
qed

end
